theory Spec2Isabelle
  imports Complex_Main "HOL-Library.Multiset" "HOL-Library.Product_Lexorder"
begin

section \<open>Data model\<close>

text \<open>
  \<open>SInt\<close> is the unsigned 64-bit integer of the generator (vertex identifiers, counts),
  \<open>SSInt\<close> its signed counterpart and \<open>PEID\<close> the rank type of the communicator.  They are
  modelled as \<open>nat\<close>, \<open>int\<close> and \<open>nat\<close>; where an operation of the source could leave
  the 64-bit range the reduction modulo \<open>2 ^ 64\<close> is written out.  Coordinates are
  floating-point tuples that the modelled code only stores and moves.
\<close>

type_synonym SInt = nat
type_synonym SSInt = int
type_synonym PEID = nat
type_synonym VertexRange = "SInt \<times> SInt"
type_synonym Edge = "SInt \<times> SInt"
type_synonym Coordinates = "(real \<times> real) list \<times> (real \<times> real \<times> real) list"

datatype GraphRepresentation = EDGE_LIST | CSR

text \<open>The result container handed out by \<open>Take\<close>.\<close>

record Graph =
  vertex_range :: VertexRange
  representation :: GraphRepresentation
  edges :: "Edge list"
  xadj :: "SInt list"
  adjncy :: "SInt list"
  vertex_weights :: "SSInt list"
  edge_weights :: "SSInt list"
  coordinates :: Coordinates

text \<open>
  The data members of class \<open>Generator\<close>.  Member \<open>edges_\<close> of generator.cpp is \<open>gen_edges\<close>
  here, and so on: a name that ends in an underscore is reserved in Isabelle.
\<close>

record Generator =
  gen_vertex_range :: VertexRange
  gen_representation :: GraphRepresentation
  gen_edges :: "Edge list"
  gen_xadj :: "SInt list"
  gen_adjncy :: "SInt list"
  gen_vertex_weights :: "SSInt list"
  gen_edge_weights :: "SSInt list"
  gen_coordinates :: Coordinates

text \<open>
  The virtual member functions of a generator.  A concrete family overrides the generation
  kernels and, where it needs them, the finalisation hooks; each is a transformer of the
  generator's data members (the communicator of the hooks is fixed for a run).
\<close>

record Methods =
  GenerateEdgeList :: "Generator \<Rightarrow> Generator"
  GenerateCSR :: "Generator \<Rightarrow> Generator"
  FinalizeEdgeList :: "Generator \<Rightarrow> Generator"
  FinalizeCSR :: "Generator \<Rightarrow> Generator"

section \<open>Generator: Reset, Generate, Finalize, Take\<close>

text \<open>\<open>Generator::Reset\<close>, generator.cpp lines 102-110: seven \<open>clear()\<close> calls.\<close>

definition Reset :: "Generator \<Rightarrow> Generator" where
  "Reset g = g\<lparr>gen_edges := [], gen_xadj := [], gen_adjncy := [], gen_vertex_weights := [],
     gen_edge_weights := [], gen_coordinates := ([], [])\<rparr>"

text \<open>\<open>Generator::Generate\<close>, lines 14-28.\<close>

definition Generate :: "Methods \<Rightarrow> GraphRepresentation \<Rightarrow> Generator \<Rightarrow> Generator" where
  "Generate vt rep g =
     (let g1 = Reset g;
          g2 = g1\<lparr>gen_representation := rep\<rparr>
      in case gen_representation g2 of
           EDGE_LIST \<Rightarrow> GenerateEdgeList vt g2
         | CSR \<Rightarrow> GenerateCSR vt g2)"

text \<open>\<open>Generator::Finalize\<close>, lines 30-40.\<close>

definition Finalize :: "Methods \<Rightarrow> Generator \<Rightarrow> Generator" where
  "Finalize vt g =
     (case gen_representation g of
        EDGE_LIST \<Rightarrow> FinalizeEdgeList vt g
      | CSR \<Rightarrow> FinalizeCSR vt g)"

text \<open>
  \<open>Generator::Take\<close>, lines 80-90.  The vertex range and the tag are copied into the
  result; the six containers are handed over with \<open>std::move\<close>, which leaves a moved-from
  \<open>std::vector\<close> (and each component of the coordinate pair) empty.  The function returns
  the graph together with the generator as it is left behind.
\<close>

definition Take :: "Generator \<Rightarrow> Graph \<times> Generator" where
  "Take g =
     (\<lparr>vertex_range = gen_vertex_range g, representation = gen_representation g,
       edges = gen_edges g, xadj = gen_xadj g, adjncy = gen_adjncy g,
       vertex_weights = gen_vertex_weights g, edge_weights = gen_edge_weights g,
       coordinates = gen_coordinates g\<rparr>,
      g\<lparr>gen_edges := [], gen_xadj := [], gen_adjncy := [], gen_vertex_weights := [],
        gen_edge_weights := [], gen_coordinates := ([], [])\<rparr>)"

text \<open>\<open>Generator::SetVertexRange\<close>, lines 92-94.\<close>

definition SetVertexRange :: "VertexRange \<Rightarrow> Generator \<Rightarrow> Generator" where
  "SetVertexRange r g = g\<lparr>gen_vertex_range := r\<rparr>"

text \<open>\<open>Generator::GetNumberOfEdges\<close>, lines 76-78.\<close>

definition GetNumberOfEdges :: "Generator \<Rightarrow> SInt" where
  "GetNumberOfEdges g = max (length (gen_adjncy g)) (length (gen_edges g))"

section \<open>Conversion between the two representations\<close>

text \<open>
  Modelled from the spec: \<open>BuildEdgeListFromCSR\<close> of kagen/tools/converter.h, which is not
  among the sources.  The spec (4.3): for local vertex \<open>i\<close>, emit one edge
  \<open>(range.first + i, adjncy[j])\<close> for each \<open>j\<close> in \<open>[xadj[i], xadj[i+1])\<close>.  The local
  vertices are those of the range; the data model (3) gives \<open>xadj\<close> one entry more than
  there are local vertices, with \<open>xadj[0] = 0\<close> and the last entry equal to the size of
  \<open>adjncy\<close>, and the function is applied to such arrays only.
\<close>

definition BuildEdgeListFromCSR :: "VertexRange \<Rightarrow> SInt list \<Rightarrow> SInt list \<Rightarrow> Edge list" where
  "BuildEdgeListFromCSR vr xs as =
     concat (map (\<lambda>i. map (\<lambda>j. (fst vr + i, as ! j)) [xs ! i ..< xs ! (i + 1)])
                 [0 ..< snd vr - fst vr])"

text \<open>
  Modelled from the spec: \<open>BuildCSRFromEdgeList\<close> of kagen/tools/converter.h, which is not
  among the sources.  The spec (4.3): edges are grouped by local tail vertex
  (tail - range.first); within a vertex's slice the neighbours keep the order of the input
  edge list; self-loops and multi-edges are kept; \<open>xadj\<close> holds the slice boundaries
  (3: one entry per local vertex plus one, starting at 0).  The call of generator.cpp
  line 73 passes the edge weights and stores the returned pair; the pair does not depend
  on the weights.  \<open>neighbours\<close> is the slice of one local vertex and \<open>offsets\<close> lists the
  running totals of the slice lengths.
\<close>

definition neighbours :: "VertexRange \<Rightarrow> Edge list \<Rightarrow> nat \<Rightarrow> SInt list" where
  "neighbours vr es i = map snd (filter (\<lambda>e. fst e = fst vr + i) es)"

text \<open>Modelled from the spec: the slice boundaries of \<open>xadj\<close>, starting at \<open>acc\<close>.\<close>

fun offsets :: "nat \<Rightarrow> nat list \<Rightarrow> nat list" where
  "offsets acc [] = [acc]"
| "offsets acc (d # ds) = acc # offsets (acc + d) ds"

text \<open>Modelled from the spec: the grouping itself, as described above.\<close>

definition BuildCSRFromEdgeList ::
  "VertexRange \<Rightarrow> Edge list \<Rightarrow> SSInt list \<Rightarrow> SInt list \<times> SInt list" where
  "BuildCSRFromEdgeList vr es ews =
     (let groups = map (neighbours vr es) [0 ..< snd vr - fst vr]
      in (offsets 0 (map length groups), concat groups))"

section \<open>Generators with one native representation\<close>

text \<open>The hooks of the base class do nothing (generator.cpp lines 42 and 44).\<close>

definition Generator_FinalizeEdgeList :: "Generator \<Rightarrow> Generator" where
  "Generator_FinalizeEdgeList g = g"

definition Generator_FinalizeCSR :: "Generator \<Rightarrow> Generator" where
  "Generator_FinalizeCSR g = g"

text \<open>
  \<open>CSROnlyGenerator\<close>, lines 46-59: a family that implements \<open>GenerateCSR\<close> (the argument
  \<open>generate_csr\<close>) and may override \<open>FinalizeCSR\<close> (\<open>finalize_csr\<close>).
\<close>

definition CSROnlyGenerator_FinalizeEdgeList ::
  "(Generator \<Rightarrow> Generator) \<Rightarrow> Generator \<Rightarrow> Generator" where
  "CSROnlyGenerator_FinalizeEdgeList finalize_csr g =
     (if gen_xadj g = [] then g
      else let g1 = finalize_csr g
           in g1\<lparr>gen_edges :=
                  BuildEdgeListFromCSR (gen_vertex_range g1) (gen_xadj g1) (gen_adjncy g1)\<rparr>)"

definition CSROnlyGenerator ::
  "(Generator \<Rightarrow> Generator) \<Rightarrow> (Generator \<Rightarrow> Generator) \<Rightarrow> Methods" where
  "CSROnlyGenerator generate_csr finalize_csr =
     \<lparr>GenerateEdgeList = generate_csr,
      GenerateCSR = generate_csr,
      FinalizeEdgeList = CSROnlyGenerator_FinalizeEdgeList finalize_csr,
      FinalizeCSR = finalize_csr\<rparr>"

text \<open>
  \<open>EdgeListOnlyGenerator\<close>, lines 61-74: the mirror image, for a family that implements
  \<open>GenerateEdgeList\<close> and may override \<open>FinalizeEdgeList\<close>.
\<close>

definition EdgeListOnlyGenerator_FinalizeCSR ::
  "(Generator \<Rightarrow> Generator) \<Rightarrow> Generator \<Rightarrow> Generator" where
  "EdgeListOnlyGenerator_FinalizeCSR finalize_edge_list g =
     (if gen_xadj g \<noteq> [] then g
      else let g1 = finalize_edge_list g;
               (xs, as) = BuildCSRFromEdgeList (gen_vertex_range g1) (gen_edges g1)
                            (gen_edge_weights g1)
           in g1\<lparr>gen_xadj := xs, gen_adjncy := as\<rparr>)"

definition EdgeListOnlyGenerator ::
  "(Generator \<Rightarrow> Generator) \<Rightarrow> (Generator \<Rightarrow> Generator) \<Rightarrow> Methods" where
  "EdgeListOnlyGenerator generate_edge_list finalize_edge_list =
     \<lparr>GenerateEdgeList = generate_edge_list,
      GenerateCSR = generate_edge_list,
      FinalizeEdgeList = finalize_edge_list,
      FinalizeCSR = EdgeListOnlyGenerator_FinalizeCSR finalize_edge_list\<rparr>"

text \<open>
  \<open>Generator::FilterDuplicateEdges\<close>, lines 96-100: \<open>std::sort\<close> by the lexicographic
  order of pairs, \<open>std::unique\<close> (one element of every run of equal neighbours is kept),
  and \<open>erase\<close> of the tail.
\<close>

definition FilterDuplicateEdges :: "Generator \<Rightarrow> Generator" where
  "FilterDuplicateEdges g = g\<lparr>gen_edges := remdups_adj (sort (gen_edges g))\<rparr>"

section \<open>Chunk counts: the generator factory\<close>

text \<open>
  The generator families of \<open>CreateGeneratorFactory\<close> (facade.cpp lines 35-86).
\<close>

datatype GeneratorType =
    GNM_DIRECTED | GNM_UNDIRECTED | GNP_DIRECTED | GNP_UNDIRECTED
  | RGG_2D | RGG_3D | RDG_2D | RDG_3D | GRID_2D | GRID_3D
  | BA | KRONECKER | RHG | RMAT | IMAGE_MESH

text \<open>
  The fields of \<open>PGeneratorConfig\<close> that the sources read or write (its declaration,
  kagen/context.h, is not among them).  Field \<open>k\<close> of the source is \<open>cfg_k\<close> here, and so
  on.  Floating-point fields are carried as reals; the statistics level is the numeric
  value of its enumerator.
\<close>

record PGeneratorConfig =
  cfg_generator :: GeneratorType
  cfg_n :: SInt
  cfg_m :: SInt
  cfg_k :: SInt
  cfg_p :: real
  cfg_r :: real
  cfg_plexp :: real
  cfg_periodic :: bool
  cfg_avg_degree :: real
  cfg_min_degree :: SInt
  cfg_grid_x :: SInt
  cfg_grid_y :: SInt
  cfg_grid_z :: SInt
  cfg_rmat_a :: real
  cfg_rmat_b :: real
  cfg_rmat_c :: real
  cfg_coordinates :: bool
  cfg_quiet :: bool
  cfg_print_header :: bool
  cfg_skip_postprocessing :: bool
  cfg_validate_simple_graph :: bool
  cfg_statistics_level :: nat

text \<open>
  What the modelled code can throw: the \<open>ConfigurationError\<close> of the factory, the
  \<open>std::runtime_error\<close> of the option-string path, and the two exceptions of
  \<open>std::stoll\<close>.  A shift of a 64-bit value by 64 or more has no defined result in C++; the
  model makes it a failure of its own.
\<close>

datatype Exception =
    ConfigurationError string
  | runtime_error string
  | invalid_argument string
  | out_of_range string
  | undefined_shift

text \<open>Arithmetic on \<open>SInt\<close> wraps around at \<open>2 ^ 64\<close>.\<close>

definition wrap64 :: "nat \<Rightarrow> SInt" where
  "wrap64 x = x mod 2 ^ 64"

text \<open>
  \<open>std::sqrt\<close> and \<open>std::round\<close> on \<open>double\<close> are used by the source only to obtain an
  integer root: \<open>SInt root = std::sqrt(value)\<close> truncates and
  \<open>SInt root = std::round(std::sqrt(value))\<close> rounds to the nearest integer.  They are
  modelled by the exact integer functions: \<open>sqrt_floor v\<close> is the largest \<open>s\<close> with
  \<open>s * s \<le> v\<close>, and the nearest integer to the square root of \<open>v\<close> is \<open>s\<close> when
  \<open>v \<le> s * s + s\<close> (that is, below \<open>(s + 1/2)\<^sup>2\<close>) and \<open>s + 1\<close> otherwise.  The truncated
  root is taken of process counts only, which are below \<open>2 ^ 31\<close>.  On a large value that
  is not a perfect square the rounded root of the double computation can differ from
  \<open>round_sqrt\<close>; the source uses the rounded root in the comparison
  \<open>root * root == value\<close> only, which holds of the perfect squares and of nothing else
  with either root (\<open>IsSquare_iff\<close> below, for the model).
\<close>

fun sqrt_floor :: "nat \<Rightarrow> nat" where
  "sqrt_floor 0 = 0"
| "sqrt_floor (Suc n) =
     (let r = sqrt_floor n in if (r + 1) * (r + 1) \<le> Suc n then r + 1 else r)"

definition round_sqrt :: "nat \<Rightarrow> nat" where
  "round_sqrt v = (let s = sqrt_floor v in if v \<le> s * s + s then s else s + 1)"

text \<open>\<open>IsPowerOfTwo\<close>, generator.cpp lines 122-124; \<open>value - 1\<close> wraps at \<open>value = 0\<close>.\<close>

definition IsPowerOfTwo :: "SInt \<Rightarrow> bool" where
  "IsPowerOfTwo v = (and v (wrap64 (v + 2 ^ 64 - 1)) = 0)"

text \<open>\<open>IsSquare\<close>, lines 126-129.\<close>

definition IsSquare :: "SInt \<Rightarrow> bool" where
  "IsSquare v = (let root = round_sqrt v in wrap64 (root * root) = v)"

text \<open>
  \<open>FindSquareMultipleOf\<close>, lines 136-153.  The loop of lines 146-151 runs \<open>cur\<close> from the
  truncated root up to \<open>value - 1\<close>; \<open>++cur\<close> stays below \<open>value\<close> and cannot wrap.
\<close>

function FindSquareMultipleOf_loop :: "SInt \<Rightarrow> SInt \<Rightarrow> SInt" where
  "FindSquareMultipleOf_loop v cur =
     (if cur < v then
        (let squared = wrap64 (cur * cur)
         in if squared mod v = 0 then squared else FindSquareMultipleOf_loop v (cur + 1))
      else wrap64 (v * v))"
  by pat_completeness auto
termination
  by (relation "measure (\<lambda>(v, cur). v - cur)") auto

definition FindSquareMultipleOf :: "SInt \<Rightarrow> SInt" where
  "FindSquareMultipleOf v =
     (if IsSquare v then v
      else if IsPowerOfTwo v then wrap64 (2 * v)
      else FindSquareMultipleOf_loop v (sqrt_floor v))"

text \<open>\<open>GeneratorFactory::NormalizeParameters\<close> of the base class, lines 114-119.\<close>

definition NormalizeParameters :: "PGeneratorConfig \<Rightarrow> PEID \<Rightarrow> bool \<Rightarrow> PGeneratorConfig" where
  "NormalizeParameters config sz verbose =
     (if cfg_k config = 0 then config\<lparr>cfg_k := sz\<rparr> else config)"

text \<open>
  The checks of lines 175-201.  Each either throws or returns; the configuration is passed
  by reference and the result is the configuration as the call leaves it.
\<close>

definition EnsurePowerOfTwoCommunicatorSize ::
  "PGeneratorConfig \<Rightarrow> PEID \<Rightarrow> Exception + PGeneratorConfig" where
  "EnsurePowerOfTwoCommunicatorSize config sz =
     (if \<not> IsPowerOfTwo sz then Inl (ConfigurationError ''number of PEs must be a power of two'')
      else Inr config)"

definition EnsureSquareChunkSize ::
  "PGeneratorConfig \<Rightarrow> PEID \<Rightarrow> Exception + PGeneratorConfig" where
  "EnsureSquareChunkSize config sz =
     (if cfg_k config = 0 then Inr (config\<lparr>cfg_k := FindSquareMultipleOf sz\<rparr>)
      else if \<not> IsSquare (cfg_k config)
        then Inl (ConfigurationError ''number of chunks must be square'')
      else Inr config)"

definition EnsureOneChunkPerPE ::
  "PGeneratorConfig \<Rightarrow> PEID \<Rightarrow> Exception + PGeneratorConfig" where
  "EnsureOneChunkPerPE config sz =
     (if cfg_k config \<noteq> sz
        then Inl (ConfigurationError ''number of chunks must match the number of PEs'')
      else Inr config)"

section \<open>Vertex ranges of the graph checker\<close>

text \<open>
  \<open>ComputeRange\<close>, chkgraph.cpp lines 19-25.  The communicator has at least one process,
  so the division is defined.  For \<open>rank < sz\<close> (\<open>sz\<close> is the source's \<open>size\<close>) every intermediate value is at most
  \<open>n\<close> (lemma \<open>ComputeRange_no_overflow\<close> below), so the 64-bit arithmetic never wraps.
\<close>

definition ComputeRange :: "SInt \<Rightarrow> PEID \<Rightarrow> PEID \<Rightarrow> SInt \<times> SInt" where
  "ComputeRange n sz rank =
     (let chunk = n div sz;
          rem = n mod sz;
          from = rank * chunk + min rank rem;
          to = min (from + (if rank < rem then chunk + 1 else chunk)) n
      in (from, to))"

section \<open>The Generate entry point of the facade\<close>

text \<open>
  \<open>Generate\<close> of facade.cpp (lines 103-199) runs on every process of the communicator.  What
  a process does is recorded as a trace of events, in program order, and an outcome: the
  process exits with a code, returns the graph, or lets an exception escape.  \<open>Cout\<close> and
  \<open>Cerr\<close> carry the text written, without the line terminator; output whose text depends on
  timing or on the generated graph is an event of its own.
\<close>

datatype Event =
    PrintHeader
  | Cout string
  | Cerr string
  | Create
  | GeneratorGenerate
  | GeneratorFinalize
  | Reduce_SUM
  | PrintFinalizeSummary
  | TakeResult
  | Validate
  | Allreduce_LOR
  | PrintGenerationTime
  | PrintBasicStatistics
  | PrintAdvancedStatistics

datatype Outcome = Exit int | Return Graph | Throw Exception

text \<open>
  The surroundings of a call, which the sources use and do not define: the size of the
  communicator; the constant \<open>ROOT\<close> and the enumerators \<open>BASIC\<close> and \<open>ADVANCED\<close> of the
  statistics level (kagen/definitions.h and kagen/context.h); the \<open>NormalizeParameters\<close> of
  the factory that \<open>CreateGeneratorFactory\<close> selects for a generator type; the graph that the
  generator of a rank hands out; and what \<open>ValidateSimpleGraph\<close> (kagen/tools/validator.h)
  returns on each rank.
\<close>

record World =
  comm_size :: PEID
  ROOT :: PEID
  BASIC :: nat
  ADVANCED :: nat
  factory_NormalizeParameters ::
    "GeneratorType \<Rightarrow> PGeneratorConfig \<Rightarrow> PEID \<Rightarrow> bool \<Rightarrow> Exception + PGeneratorConfig"
  generator_TakeResult :: "PGeneratorConfig \<Rightarrow> PEID \<Rightarrow> Graph"
  ValidateSimpleGraph :: "PEID \<Rightarrow> bool"

text \<open>
  \<open>MPI_Allreduce\<close> with \<open>MPI_IN_PLACE\<close> and \<open>MPI_LOR\<close> on one \<open>bool\<close>: every process
  contributes its value and receives the logical or of all contributions.
\<close>

definition MPI_Allreduce_LOR :: "bool list \<Rightarrow> bool" where
  "MPI_Allreduce_LOR contributions = foldr (\<or>) contributions False"

definition facade_Generate :: "World \<Rightarrow> PGeneratorConfig \<Rightarrow> PEID \<Rightarrow> Event list \<times> Outcome" where
  "facade_Generate w config_template rank =
     (let sz = comm_size w;
          output_error = (rank = ROOT w);
          output_info = (rank = ROOT w \<and> \<not> cfg_quiet config_template);
          t0 = (if output_info \<and> cfg_print_header config_template then [PrintHeader] else [])
      in case factory_NormalizeParameters w (cfg_generator config_template) config_template sz
                output_info of
           Inl ex \<Rightarrow>
             (case ex of
                ConfigurationError what \<Rightarrow>
                  (t0 @ (if output_error then [Cerr (''Error: '' @ what)] else []), Exit 1)
              | _ \<Rightarrow> (t0, Throw ex))
         | Inr config \<Rightarrow>
             (let t1 = t0 @ (if output_info then [Cout ''Generating graph ...''] else [])
                         @ [Create, GeneratorGenerate];
                  t2 = t1 @ (if \<not> cfg_skip_postprocessing config
                             then (if output_info then [Cout ''Finalizing ...''] else [])
                                  @ [GeneratorFinalize]
                             else []);
                  t3 = t2 @ (if \<not> cfg_skip_postprocessing config \<and> \<not> cfg_quiet config
                             then [Reduce_SUM, Reduce_SUM]
                                  @ (if output_info then [PrintFinalizeSummary] else [])
                             else []);
                  graph = generator_TakeResult w config rank;
                  t4 = t3 @ [TakeResult];
                  t5 = t4 @ (if cfg_validate_simple_graph config
                             then (if output_info then [Cout ''Validating simple graph ... '']
                                   else [])
                                  @ [Validate, Allreduce_LOR]
                             else []);
                  success = MPI_Allreduce_LOR (map (ValidateSimpleGraph w) [0 ..< sz])
              in if cfg_validate_simple_graph config \<and> \<not> success
                 then (t5 @ (if output_error
                             then [Cerr ''Error: simple graph validation failed''] else []),
                       Exit 1)
                 else (t5 @ (if cfg_validate_simple_graph config \<and> output_info
                             then [Cout ''ok''] else [])
                          @ (if \<not> cfg_quiet config
                             then (if output_info then [PrintGenerationTime] else [])
                                  @ (if cfg_statistics_level config \<ge> BASIC w
                                     then [PrintBasicStatistics] else [])
                                  @ (if cfg_statistics_level config \<ge> ADVANCED w
                                     then [PrintAdvancedStatistics] else [])
                             else []),
                       Return graph)))"

section \<open>The option string of the library interface\<close>

text \<open>
  \<open>ParseOptionString\<close>, kagen.cpp lines 58-75.  \<open>std::getline\<close> with the delimiter \<open>;\<close>
  yields the text up to the next delimiter, or up to the end of the input; it fails, and
  the loop ends, when the input is exhausted before any character is read.  \<open>getline_all\<close>
  lists the strings the loop sees; its first argument is the part of the current string
  read so far.
\<close>

type_synonym Options = "string \<rightharpoonup> string"

fun getline_all :: "string \<Rightarrow> string \<Rightarrow> string list" where
  "getline_all cur [] = (if cur = [] then [] else [cur])"
| "getline_all cur (c # cs) =
     (if c = CHR '';'' then cur # getline_all [] cs else getline_all (cur @ [c]) cs)"

definition ParseOptionString :: "string \<Rightarrow> Options" where
  "ParseOptionString options =
     foldl (\<lambda>result pair.
              if CHR ''='' \<notin> set pair then result(pair \<mapsto> ''1'')
              else result(takeWhile (\<lambda>c. c \<noteq> CHR ''='') pair
                            \<mapsto> tl (dropWhile (\<lambda>c. c \<noteq> CHR ''='') pair)))
           Map.empty (getline_all [] options)"

text \<open>
  \<open>std::stoll\<close> of the C++ library, base 10: leading white space is skipped, a sign is
  optional, the longest run of decimal digits is converted and what follows is ignored;
  no digit is \<open>std::invalid_argument\<close>, a value outside \<open>long long\<close> is \<open>std::out_of_range\<close>.
\<close>

definition isspace :: "char \<Rightarrow> bool" where
  "isspace c = (c \<in> set [CHR 0x20, CHR 0x09, CHR 0x0A, CHR 0x0B, CHR 0x0C, CHR 0x0D])"

definition isdigit :: "char \<Rightarrow> bool" where
  "isdigit c = (48 \<le> (of_char c :: nat) \<and> (of_char c :: nat) \<le> 57)"

definition decimal :: "string \<Rightarrow> int" where
  "decimal ds = foldl (\<lambda>a c. 10 * a + (int (of_char c) - 48)) 0 ds"

definition stoll :: "string \<Rightarrow> Exception + int" where
  "stoll str =
     (let s1 = dropWhile isspace str;
          negative = (case s1 of [] \<Rightarrow> False | c # _ \<Rightarrow> c = CHR ''-'');
          s2 = (case s1 of [] \<Rightarrow> [] | c # cs \<Rightarrow> if c = CHR ''-'' \<or> c = CHR ''+'' then cs else s1);
          ds = takeWhile isdigit s2;
          v = (if negative then - decimal ds else decimal ds)
      in if ds = [] then Inl (invalid_argument ''stoll'')
         else if v < - (2 ^ 63) \<or> 2 ^ 63 - 1 < v then Inl (out_of_range ''stoll'')
         else Inr v)"

text \<open>Sequencing of computations that may throw.\<close>

definition and_then :: "Exception + 'a \<Rightarrow> ('a \<Rightarrow> Exception + 'b) \<Rightarrow> Exception + 'b" where
  "and_then x f = (case x of Inl e \<Rightarrow> Inl e | Inr v \<Rightarrow> f v)"

text \<open>
  The three lambdas of \<open>GenericGenerateFromOptionString\<close>, kagen.cpp lines 87-99.  The
  conditional expression of \<open>get_sint_or_default\<close> has the operands \<open>SInt\<close> and
  \<open>long long\<close>, so the parsed value is converted to \<open>SInt\<close>.  \<open>std::stod\<close> is a parameter.
\<close>

definition get_sint_or_default :: "Options \<Rightarrow> string \<Rightarrow> SInt \<Rightarrow> Exception + SInt" where
  "get_sint_or_default options option default_value =
     (case options option of
        None \<Rightarrow> Inr default_value
      | Some s \<Rightarrow> and_then (stoll s) (\<lambda>v. Inr (nat (v mod 2 ^ 64))))"

definition get_hpfloat_or_default ::
  "(string \<Rightarrow> Exception + real) \<Rightarrow> Options \<Rightarrow> string \<Rightarrow> real \<Rightarrow> Exception + real" where
  "get_hpfloat_or_default stod options option default_value =
     (case options option of None \<Rightarrow> Inr default_value | Some s \<Rightarrow> stod s)"

definition get_bool_or_default :: "Options \<Rightarrow> string \<Rightarrow> bool \<Rightarrow> bool" where
  "get_bool_or_default options option default_value =
     (case options option of
        None \<Rightarrow> default_value
      | Some s \<Rightarrow> s = ''1'' \<or> s = ''true'' \<or> s = ''yes'')"

text \<open>\<open>1ull << x\<close>: defined for a shift count below 64 only.\<close>

definition shift_left_1ull :: "SInt \<Rightarrow> Exception + SInt" where
  "shift_left_1ull x = (if x < 64 then Inr (push_bit x 1) else Inl undefined_shift)"

text \<open>
  \<open>GenericGenerateFromOptionString\<close>, lines 77-120, up to the call of \<open>Generate\<close>: the
  result is the configuration that \<open>Generate\<close> is called with, or the exception that
  escapes.  \<open>options["type"]\<close> inserts an empty value for a missing key.  The map of
  generator names (\<open>GetGeneratorTypeMap\<close>) is a parameter.  The default of \<open>n\<close> is an
  argument of the call that reads \<open>n\<close>, so \<open>N\<close> is read first, and likewise for \<open>m\<close>.
\<close>

definition GenericGenerateFromOptionString ::
  "(string \<rightharpoonup> GeneratorType) \<Rightarrow> (string \<Rightarrow> Exception + real) \<Rightarrow> string \<Rightarrow> PGeneratorConfig
   \<Rightarrow> Exception + PGeneratorConfig" where
  "GenericGenerateFromOptionString type_map stod options_str config =
     (let parsed = ParseOptionString options_str;
          type_str = (case parsed ''type'' of None \<Rightarrow> [] | Some s \<Rightarrow> s);
          options = parsed(''type'' \<mapsto> type_str)
      in case type_map type_str of
           None \<Rightarrow> Inl (runtime_error ''invalid generator type'')
         | Some generator_type \<Rightarrow>
      and_then (get_sint_or_default options ''N'' 0) (\<lambda>N_value.
      and_then (shift_left_1ull N_value) (\<lambda>n_default.
      and_then (get_sint_or_default options ''n'' n_default) (\<lambda>n.
      and_then (get_sint_or_default options ''M'' 0) (\<lambda>M_value.
      and_then (shift_left_1ull M_value) (\<lambda>m_default.
      and_then (get_sint_or_default options ''m'' m_default) (\<lambda>m.
      and_then (get_sint_or_default options ''k'' 0) (\<lambda>k.
      and_then (get_hpfloat_or_default stod options ''prob'' 0) (\<lambda>p.
      and_then (get_hpfloat_or_default stod options ''radius'' 0) (\<lambda>r.
      and_then (get_hpfloat_or_default stod options ''gamma'' 0) (\<lambda>plexp.
      and_then (get_hpfloat_or_default stod options ''avg_degree'' 0) (\<lambda>avg_degree.
      and_then (get_sint_or_default options ''min_degree'' 0) (\<lambda>min_degree.
      and_then (get_sint_or_default options ''grid_x'' 0) (\<lambda>grid_x.
      and_then (get_sint_or_default options ''grid_y'' 0) (\<lambda>grid_y.
      and_then (get_sint_or_default options ''grid_z'' 0) (\<lambda>grid_z.
      and_then (get_sint_or_default options ''rmat_a'' 0) (\<lambda>rmat_a.
      and_then (get_sint_or_default options ''rmat_b'' 0) (\<lambda>rmat_b.
      and_then (get_sint_or_default options ''rmat_c'' 0) (\<lambda>rmat_c.
        Inr (config\<lparr>cfg_generator := generator_type, cfg_n := n, cfg_m := m, cfg_k := k, cfg_p := p,
               cfg_r := r, cfg_plexp := plexp,
               cfg_periodic := get_bool_or_default options ''periodic'' False,
               cfg_avg_degree := avg_degree, cfg_min_degree := min_degree,
               cfg_grid_x := grid_x, cfg_grid_y := grid_y, cfg_grid_z := grid_z,
               cfg_rmat_a := real rmat_a, cfg_rmat_b := real rmat_b, cfg_rmat_c := real rmat_c,
               cfg_coordinates := get_bool_or_default options ''coordinates'' False\<rparr>
            ))))))))))))))))))))"

section \<open>Properties of the generator state machine\<close>

text \<open>
  Claim C10.  \<open>Generate\<close> starts with \<open>Reset\<close>, which empties the seven buffers (edge list,
  xadj, adjncy, vertex weights, edge weights and both coordinate arrays) and keeps the stored
  vertex range and representation tag.  Hence the outcome of \<open>Generate\<close> is the same whatever
  the seven buffers and the tag held before the call: nothing of an earlier generation
  reaches the new result through them.
\<close>

theorem Generate_clears_buffers:
  "gen_edges (Reset g) = [] \<and> gen_xadj (Reset g) = [] \<and> gen_adjncy (Reset g) = []
   \<and> gen_vertex_weights (Reset g) = [] \<and> gen_edge_weights (Reset g) = []
   \<and> fst (gen_coordinates (Reset g)) = [] \<and> snd (gen_coordinates (Reset g)) = []
   \<and> gen_vertex_range (Reset g) = gen_vertex_range g
   \<and> gen_representation (Reset g) = gen_representation g
   \<and> Generate vt rep g =
       (case rep of EDGE_LIST \<Rightarrow> GenerateEdgeList vt | CSR \<Rightarrow> GenerateCSR vt)
         ((Reset g)\<lparr>gen_representation := rep\<rparr>)
   \<and> Generate vt rep
         (g\<lparr>gen_representation := t, gen_edges := es, gen_xadj := xs, gen_adjncy := as,
            gen_vertex_weights := vw, gen_edge_weights := ew, gen_coordinates := co\<rparr>)
       = Generate vt rep g"
  by (cases rep) (simp_all add: Reset_def Generate_def)


text \<open>
  Claim C4, as stated, at a concrete generator.  The claim lets \<open>Take\<close> move the vertex range
  out and leave the generator's state empty, so that a second \<open>Take\<close> yields an empty
  graph.  \<open>Take\<close> copies the range: a generator holding the range \<open>[0, 3)\<close> still holds it
  after \<open>Take\<close>, and the graph of a second \<open>Take\<close> still spans the three vertices of
  \<open>[0, 3)\<close>.
\<close>

theorem Take_twice_keeps_vertex_range:
  "gen_vertex_range (snd (Take
       \<lparr>gen_vertex_range = (0, 3), gen_representation = CSR, gen_edges = [],
        gen_xadj = [0, 1, 1, 1], gen_adjncy = [2], gen_vertex_weights = [5, 5, 5],
        gen_edge_weights = [], gen_coordinates = ([], [])\<rparr>)) = (0, 3)
   \<and> vertex_range (fst (Take (snd (Take
       \<lparr>gen_vertex_range = (0, 3), gen_representation = CSR, gen_edges = [],
        gen_xadj = [0, 1, 1, 1], gen_adjncy = [2], gen_vertex_weights = [5, 5, 5],
        gen_edge_weights = [], gen_coordinates = ([], [])\<rparr>)))) = (0, 3)
   \<and> representation (fst (Take (snd (Take
       \<lparr>gen_vertex_range = (0, 3), gen_representation = CSR, gen_edges = [],
        gen_xadj = [0, 1, 1, 1], gen_adjncy = [2], gen_vertex_weights = [5, 5, 5],
        gen_edge_weights = [], gen_coordinates = ([], [])\<rparr>)))) = CSR"
  by (simp add: Take_def)

text \<open>
  Claim C4, amended.  The first \<open>Take\<close> returns the vertex range, the tag and the seven
  buffers of the generator.  It leaves the seven buffers empty and the vertex range and the
  tag as they were.  A second \<open>Take\<close> with no \<open>Generate\<close> in between returns a graph whose
  buffers are all empty and whose vertex range and tag are those of the first.
\<close>

theorem Take_moves_buffers:
  "fst (Take g) =
     \<lparr>vertex_range = gen_vertex_range g, representation = gen_representation g,
      edges = gen_edges g, xadj = gen_xadj g, adjncy = gen_adjncy g,
      vertex_weights = gen_vertex_weights g, edge_weights = gen_edge_weights g,
      coordinates = gen_coordinates g\<rparr>
   \<and> snd (Take g) =
     \<lparr>gen_vertex_range = gen_vertex_range g, gen_representation = gen_representation g,
      gen_edges = [], gen_xadj = [], gen_adjncy = [], gen_vertex_weights = [],
      gen_edge_weights = [], gen_coordinates = ([], [])\<rparr>
   \<and> fst (Take (snd (Take g))) =
     \<lparr>vertex_range = gen_vertex_range g, representation = gen_representation g,
      edges = [], xadj = [], adjncy = [], vertex_weights = [], edge_weights = [],
      coordinates = ([], [])\<rparr>"
  by (cases g) (simp add: Take_def)

section \<open>Duplicate removal\<close>

lemma distinct_remdups_adj_sorted:
  "sorted (xs :: 'a :: linorder list) \<Longrightarrow> distinct (remdups_adj xs)"
  by (induction xs rule: remdups_adj.induct) auto

text \<open>
  Claim C6.  \<open>FilterDuplicateEdges\<close> is idempotent.  One application leaves the edge list
  sorted and free of duplicates, with the same set of edges as before.
\<close>

theorem FilterDuplicateEdges_idempotent:
  "FilterDuplicateEdges (FilterDuplicateEdges g) = FilterDuplicateEdges g
   \<and> sorted (gen_edges (FilterDuplicateEdges g))
   \<and> distinct (gen_edges (FilterDuplicateEdges g))
   \<and> set (gen_edges (FilterDuplicateEdges g)) = set (gen_edges g)"
proof -
  let ?r = "remdups_adj (sort (gen_edges g))"
  have s: "sorted ?r" by (simp add: sorted_remdups_adj)
  have d: "distinct ?r" by (simp add: distinct_remdups_adj_sorted)
  have "sort ?r = ?r" using s by (rule sort_key_id_if_sorted [where f = "\<lambda>x. x", simplified])
  moreover have "remdups_adj ?r = ?r" by (simp add: remdups_adj_distinct d)
  ultimately show ?thesis using s d by (simp add: FilterDuplicateEdges_def)
qed

section \<open>The round trip through CSR\<close>

lemma length_offsets: "length (offsets a ds) = Suc (length ds)"
  by (induction ds arbitrary: a) auto

lemma offsets_nth: "i \<le> length ds \<Longrightarrow> offsets a ds ! i = a + sum_list (take i ds)"
proof (induction ds arbitrary: a i)
  case Nil
  then show ?case by simp
next
  case (Cons d ds)
  then show ?case by (cases i) (simp_all add: add.assoc)
qed

text \<open>Reading \<open>concat gs\<close> between the boundaries of group \<open>i\<close> gives group \<open>i\<close> back.\<close>

lemma concat_slice:
  assumes "i < length gs"
  shows "map ((!) (concat gs))
           [sum_list (map length (take i gs)) ..< sum_list (map length (take (Suc i) gs))]
         = gs ! i"
proof -
  let ?a = "sum_list (map length (take i gs))"
  have split: "concat gs = concat (take i gs) @ gs ! i @ concat (drop (Suc i) gs)"
    using assms by (metis append_take_drop_id concat.simps(2) concat_append Cons_nth_drop_Suc)
  have la: "length (concat (take i gs)) = ?a"
    by (simp add: length_concat)
  have lb: "sum_list (map length (take (Suc i) gs)) = ?a + length (gs ! i)"
    using assms by (simp add: take_Suc_conv_app_nth)
  have "map ((!) (concat gs)) [?a ..< ?a + length (gs ! i)] = gs ! i"
  proof (rule nth_equalityI)
    show "length (map ((!) (concat gs)) [?a ..< ?a + length (gs ! i)]) = length (gs ! i)"
      by simp
  next
    fix j assume "j < length (map ((!) (concat gs)) [?a ..< ?a + length (gs ! i)])"
    then have j: "j < length (gs ! i)" by simp
    have "concat gs ! (?a + j) = (gs ! i @ concat (drop (Suc i) gs)) ! j"
      using la by (subst split) (simp add: nth_append)
    also have "\<dots> = gs ! i ! j" using j by (simp add: nth_append)
    finally show "map ((!) (concat gs)) [?a ..< ?a + length (gs ! i)] ! j = gs ! i ! j"
      using j by simp
  qed
  then show ?thesis by (simp only: lb)
qed

lemma filter_tail_rebuild:
  "map (\<lambda>e. (v, snd e)) (filter (\<lambda>e. fst e = v) es) = filter (\<lambda>e. fst e = v) es"
  by (induction es) auto

lemma mset_grouped:
  "distinct vs \<Longrightarrow>
   mset (concat (map (\<lambda>v. filter (\<lambda>e. fst e = v) es) vs))
   = filter_mset (\<lambda>e. fst e \<in> set vs) (mset es)"
proof (induction vs)
  case Nil
  then show ?case by simp
next
  case (Cons v vs)
  have "filter_mset (\<lambda>e. fst e = v) (mset es) + filter_mset (\<lambda>e. fst e \<in> set vs) (mset es)
        = filter_mset (\<lambda>e. fst e \<in> set (v # vs)) (mset es)"
    using Cons.prems by (intro multiset_eqI) auto
  with Cons show ?case by simp
qed

lemma filter_mset_all: "\<forall>e \<in> set es. P e \<Longrightarrow> filter_mset P (mset es) = mset es"
  by (induction es) auto

lemma roundtrip_grouped:
  "BuildEdgeListFromCSR vr (fst (BuildCSRFromEdgeList vr es ews))
     (snd (BuildCSRFromEdgeList vr es ews))
   = concat (map (\<lambda>v. filter (\<lambda>e. fst e = v) es) [fst vr ..< fst vr + (snd vr - fst vr)])"
proof -
  let ?n = "snd vr - fst vr"
  let ?gs = "map (neighbours vr es) [0 ..< ?n]"
  have slice: "map (\<lambda>j. (fst vr + i, concat ?gs ! j))
                 [offsets 0 (map length ?gs) ! i ..< offsets 0 (map length ?gs) ! (i + 1)]
               = filter (\<lambda>e. fst e = fst vr + i) es" if "i < ?n" for i
  proof -
    have i: "i < length ?gs" using that by simp
    have "map (\<lambda>j. (fst vr + i, concat ?gs ! j))
            [offsets 0 (map length ?gs) ! i ..< offsets 0 (map length ?gs) ! (i + 1)]
          = map (\<lambda>w. (fst vr + i, w)) (map ((!) (concat ?gs))
              [sum_list (map length (take i ?gs)) ..< sum_list (map length (take (Suc i) ?gs))])"
      using that by (simp add: offsets_nth take_map o_def)
    also have "\<dots> = map (\<lambda>w. (fst vr + i, w)) (?gs ! i)"
      by (simp only: concat_slice [OF i])
    also have "\<dots> = filter (\<lambda>e. fst e = fst vr + i) es"
      using that by (simp add: neighbours_def o_def filter_tail_rebuild)
    finally show ?thesis .
  qed
  have "BuildEdgeListFromCSR vr (fst (BuildCSRFromEdgeList vr es ews))
          (snd (BuildCSRFromEdgeList vr es ews))
        = concat (map (\<lambda>i. filter (\<lambda>e. fst e = fst vr + i) es) [0 ..< ?n])"
    unfolding BuildEdgeListFromCSR_def BuildCSRFromEdgeList_def Let_def fst_conv snd_conv
  proof (rule arg_cong [where f = concat], rule map_cong [OF refl])
    fix i assume "i \<in> set [0 ..< ?n]"
    then have "i < ?n" by simp
    then show "map (\<lambda>j. (fst vr + i, concat ?gs ! j))
                 [offsets 0 (map length ?gs) ! i ..< offsets 0 (map length ?gs) ! (i + 1)]
               = filter (\<lambda>e. fst e = fst vr + i) es"
      by (rule slice)
  qed
  also have "\<dots> = concat (map (\<lambda>v. filter (\<lambda>e. fst e = v) es)
                       (map (\<lambda>i. fst vr + i) [0 ..< ?n]))"
    by (simp add: o_def)
  also have "map (\<lambda>i. fst vr + i) [0 ..< ?n] = [fst vr ..< fst vr + ?n]"
    by (simp add: map_add_upt add.commute)
  finally show ?thesis .
qed

text \<open>
  Claim C3.  For a vertex range \<open>[first, last)\<close> with \<open>first \<le> last\<close> and an edge list whose
  tails all lie in the range, converting to CSR and back yields the input grouped by tail
  vertex, in increasing order of the tail and with the input's order inside every group;
  this list has the same multiset of edges as the input.
\<close>

theorem BuildEdgeListFromCSR_BuildCSRFromEdgeList:
  assumes "fst vr \<le> snd vr"
      and "\<forall>e \<in> set es. fst vr \<le> fst e \<and> fst e < snd vr"
  shows "(case BuildCSRFromEdgeList vr es ews of (xs, as) \<Rightarrow>
            BuildEdgeListFromCSR vr xs as
              = concat (map (\<lambda>v. filter (\<lambda>e. fst e = v) es) [fst vr ..< snd vr])
            \<and> mset (BuildEdgeListFromCSR vr xs as) = mset es)"
proof -
  have grouped: "BuildEdgeListFromCSR vr (fst (BuildCSRFromEdgeList vr es ews))
                   (snd (BuildCSRFromEdgeList vr es ews))
                 = concat (map (\<lambda>v. filter (\<lambda>e. fst e = v) es) [fst vr ..< snd vr])"
    using assms(1) by (simp add: roundtrip_grouped)
  have "mset (concat (map (\<lambda>v. filter (\<lambda>e. fst e = v) es) [fst vr ..< snd vr]))
        = filter_mset (\<lambda>e. fst e \<in> set [fst vr ..< snd vr]) (mset es)"
    by (rule mset_grouped) simp
  also have "\<dots> = mset es"
    using assms(2) by (intro filter_mset_all) simp
  finally show ?thesis using grouped by (simp add: case_prod_beta)
qed

theorem BuildEdgeListFromCSR_BuildCSRFromEdgeList_witness:
  "(case BuildCSRFromEdgeList (2, 5) [(4, 1), (2, 7), (4, 0), (2, 2)] [] of (xs, as) \<Rightarrow>
      xs = [0, 2, 2, 4] \<and> as = [7, 2, 1, 0]
      \<and> BuildEdgeListFromCSR (2, 5) xs as = [(2, 7), (2, 2), (4, 1), (4, 0)]
      \<and> mset (BuildEdgeListFromCSR (2, 5) xs as) = mset [(4, 1), (2, 7), (4, 0), (2, 2)])"
  using BuildEdgeListFromCSR_BuildCSRFromEdgeList
          [of "(2, 5)" "[(4, 1), (2, 7), (4, 0), (2, 2)]" "[]"]
  by (simp add: BuildCSRFromEdgeList_def neighbours_def upt_conv_Cons)


section \<open>Representations of the graph handed out\<close>

lemma Take_fields:
  "vertex_range (fst (Take s)) = gen_vertex_range s"
  "representation (fst (Take s)) = gen_representation s"
  "edges (fst (Take s)) = gen_edges s"
  "xadj (fst (Take s)) = gen_xadj s"
  "adjncy (fst (Take s)) = gen_adjncy s"
  by (simp_all add: Take_def)

text \<open>
  Claim C2, as stated, at two concrete generators with the hooks of the base class.  A
  CSR-only generator whose kernel produces the two-vertex graph \<open>0 \<leftrightarrow> 1\<close>, asked for an edge
  list, hands out a graph in which the edge list and the CSR pair are both populated:
  \<open>CSROnlyGenerator::FinalizeEdgeList\<close> fills \<open>edges_\<close> and leaves \<open>xadj_\<close> and \<open>adjncy_\<close> as
  they are.  An edge-list generator whose kernel produces an empty local slice hands out a
  graph in which neither is populated.
\<close>

theorem Take_after_Finalize_both_or_neither_populated:
  "(let vt = CSROnlyGenerator
               (\<lambda>h. h\<lparr>gen_vertex_range := (0, 2), gen_xadj := [0, 1, 2], gen_adjncy := [1, 0]\<rparr>)
               Generator_FinalizeCSR;
        G = fst (Take (Finalize vt (Generate vt EDGE_LIST
              \<lparr>gen_vertex_range = (0, 0), gen_representation = CSR, gen_edges = [],
               gen_xadj = [], gen_adjncy = [], gen_vertex_weights = [], gen_edge_weights = [],
               gen_coordinates = ([], [])\<rparr>)))
    in edges G = [(0, 1), (1, 0)] \<and> xadj G = [0, 1, 2] \<and> adjncy G = [1, 0])
   \<and> (let vt = EdgeListOnlyGenerator (\<lambda>h. h) Generator_FinalizeEdgeList;
        G = fst (Take (Finalize vt (Generate vt EDGE_LIST
              \<lparr>gen_vertex_range = (0, 0), gen_representation = CSR, gen_edges = [],
               gen_xadj = [], gen_adjncy = [], gen_vertex_weights = [], gen_edge_weights = [],
               gen_coordinates = ([], [])\<rparr>)))
    in edges G = [] \<and> xadj G = [] \<and> adjncy G = [])"
  by (simp add: Let_def Generate_def Finalize_def Take_def Reset_def CSROnlyGenerator_def
      EdgeListOnlyGenerator_def CSROnlyGenerator_FinalizeEdgeList_def Generator_FinalizeCSR_def
      Generator_FinalizeEdgeList_def BuildEdgeListFromCSR_def upt_conv_Cons)

text \<open>
  Claim C2, amended.  Take the graph handed out by \<open>Take\<close> after \<open>Generate\<close> and \<open>Finalize\<close>,
  for a generator with the hooks of the base class whose kernel writes its native buffers
  only and leaves the tag alone.  Its tag is the requested representation and the natively
  generated buffers are handed out as generated.  A CSR-only generator asked for CSR hands
  out an empty edge list; asked for an edge list it hands out, beside the CSR pair, the
  expansion of that pair (nothing when \<open>xadj\<close> is empty).  An edge-list-only generator asked
  for an edge list hands out an empty CSR pair; asked for CSR it hands out, beside the edge
  list, the CSR pair built from it.  The conversion never clears the native buffers.
\<close>

theorem Take_after_Finalize_representations:
  assumes kc: "\<forall>h. gen_edges (kc h) = gen_edges h
                  \<and> gen_representation (kc h) = gen_representation h"
      and ke: "\<forall>h. gen_xadj (ke h) = gen_xadj h \<and> gen_adjncy (ke h) = gen_adjncy h
                  \<and> gen_representation (ke h) = gen_representation h"
  shows "(let vt = CSROnlyGenerator kc Generator_FinalizeCSR;
              s = Generate vt rep g;
              G = fst (Take (Finalize vt s))
          in representation G = rep \<and> vertex_range G = gen_vertex_range s
             \<and> xadj G = gen_xadj s \<and> adjncy G = gen_adjncy s
             \<and> edges G = (if rep = EDGE_LIST \<and> gen_xadj s \<noteq> []
                           then BuildEdgeListFromCSR (gen_vertex_range s) (gen_xadj s)
                                  (gen_adjncy s)
                           else []))
       \<and> (let vt = EdgeListOnlyGenerator ke Generator_FinalizeEdgeList;
              s = Generate vt rep g;
              G = fst (Take (Finalize vt s))
          in representation G = rep \<and> vertex_range G = gen_vertex_range s
             \<and> edges G = gen_edges s
             \<and> (xadj G, adjncy G) =
                 (if rep = CSR
                  then BuildCSRFromEdgeList (gen_vertex_range s) (gen_edges s)
                         (gen_edge_weights s)
                  else ([], [])))"
proof -
  have c: "gen_edges (Generate (CSROnlyGenerator kc Generator_FinalizeCSR) rep g) = []"
          "gen_representation (Generate (CSROnlyGenerator kc Generator_FinalizeCSR) rep g) = rep"
    using kc by (cases rep; simp add: Generate_def CSROnlyGenerator_def Reset_def)+
  have e: "gen_xadj (Generate (EdgeListOnlyGenerator ke Generator_FinalizeEdgeList) rep g) = []"
          "gen_adjncy (Generate (EdgeListOnlyGenerator ke Generator_FinalizeEdgeList) rep g) = []"
          "gen_representation (Generate (EdgeListOnlyGenerator ke Generator_FinalizeEdgeList) rep g)
           = rep"
    using ke by (cases rep; simp add: Generate_def EdgeListOnlyGenerator_def Reset_def)+
  have 1: ?thesis if "rep = CSR"
    using that c e
    by (simp add: Let_def Finalize_def Take_fields CSROnlyGenerator_def EdgeListOnlyGenerator_def
        Generator_FinalizeCSR_def Generator_FinalizeEdgeList_def
        EdgeListOnlyGenerator_FinalizeCSR_def split: prod.split)
  have 2: ?thesis if "rep = EDGE_LIST"
    using that c e
    by (simp add: Let_def Finalize_def Take_fields CSROnlyGenerator_def EdgeListOnlyGenerator_def
        Generator_FinalizeCSR_def Generator_FinalizeEdgeList_def
        CSROnlyGenerator_FinalizeEdgeList_def)
  show ?thesis using 1 2 by (cases rep) blast+
qed

theorem Take_after_Finalize_representations_witness:
  "(let vt = CSROnlyGenerator
               (\<lambda>h. h\<lparr>gen_vertex_range := (0, 2), gen_xadj := [0, 1, 2], gen_adjncy := [1, 0]\<rparr>)
               Generator_FinalizeCSR;
        G = fst (Take (Finalize vt (Generate vt EDGE_LIST
              \<lparr>gen_vertex_range = (0, 0), gen_representation = CSR, gen_edges = [(7, 7)],
               gen_xadj = [], gen_adjncy = [], gen_vertex_weights = [], gen_edge_weights = [],
               gen_coordinates = ([], [])\<rparr>)))
    in representation G = EDGE_LIST \<and> vertex_range G = (0, 2)
       \<and> xadj G = [0, 1, 2] \<and> adjncy G = [1, 0]
       \<and> edges G = BuildEdgeListFromCSR (0, 2) [0, 1, 2] [1, 0])
   \<and> (let vt = EdgeListOnlyGenerator
               (\<lambda>h. h\<lparr>gen_vertex_range := (0, 2), gen_edges := [(0, 1), (1, 0)]\<rparr>)
               Generator_FinalizeEdgeList;
        G = fst (Take (Finalize vt (Generate vt EDGE_LIST
              \<lparr>gen_vertex_range = (0, 0), gen_representation = CSR, gen_edges = [(7, 7)],
               gen_xadj = [], gen_adjncy = [], gen_vertex_weights = [], gen_edge_weights = [],
               gen_coordinates = ([], [])\<rparr>)))
    in representation G = EDGE_LIST \<and> vertex_range G = (0, 2)
       \<and> edges G = [(0, 1), (1, 0)] \<and> xadj G = [] \<and> adjncy G = [])"
proof -
  let ?kc = "\<lambda>h. h\<lparr>gen_vertex_range := (0, 2), gen_xadj := [0, 1, 2], gen_adjncy := [1, 0]\<rparr>"
  let ?ke = "\<lambda>h. h\<lparr>gen_vertex_range := (0, 2), gen_edges := [(0, 1), (1, 0)]\<rparr>"
  have a: "\<forall>h. gen_edges (?kc h) = gen_edges h
               \<and> gen_representation (?kc h) = gen_representation h"
    by simp
  have b: "\<forall>h. gen_xadj (?ke h) = gen_xadj h \<and> gen_adjncy (?ke h) = gen_adjncy h
               \<and> gen_representation (?ke h) = gen_representation h"
    by simp
  show ?thesis
    using Take_after_Finalize_representations [OF a b, of EDGE_LIST
        "\<lparr>gen_vertex_range = (0, 0), gen_representation = CSR, gen_edges = [(7, 7)],
          gen_xadj = [], gen_adjncy = [], gen_vertex_weights = [], gen_edge_weights = [],
          gen_coordinates = ([], [])\<rparr>"]
    by (simp add: Let_def Generate_def Reset_def CSROnlyGenerator_def EdgeListOnlyGenerator_def)
qed

section \<open>Square chunk counts\<close>

lemma sqrt_floor_bounds:
  "sqrt_floor n * sqrt_floor n \<le> n \<and> n < (sqrt_floor n + 1) * (sqrt_floor n + 1)"
proof (induction n)
  case 0
  then show ?case by simp
next
  case (Suc n)
  then show ?case by (auto simp: Let_def)
qed

lemma sqrt_floor_square: "sqrt_floor (r * r) = r"
proof -
  let ?s = "sqrt_floor (r * r)"
  have b: "?s * ?s \<le> r * r" "r * r < (?s + 1) * (?s + 1)"
    using sqrt_floor_bounds [of "r * r"] by auto
  have "?s \<le> r"
  proof (rule ccontr)
    assume "\<not> ?s \<le> r"
    then have h: "r + 1 \<le> ?s" by linarith
    have "(r + 1) * (r + 1) \<le> ?s * ?s" by (rule mult_le_mono [OF h h])
    with b(1) show False by (simp add: algebra_simps)
  qed
  moreover have "r \<le> ?s"
  proof (rule ccontr)
    assume "\<not> r \<le> ?s"
    then have h: "?s + 1 \<le> r" by linarith
    have "(?s + 1) * (?s + 1) \<le> r * r" by (rule mult_le_mono [OF h h])
    with b(2) show False by (simp add: algebra_simps)
  qed
  ultimately show ?thesis by simp
qed

lemma round_sqrt_square: "round_sqrt (r * r) = r"
  by (simp add: round_sqrt_def sqrt_floor_square)

lemma sqrt_floor_le: "sqrt_floor n \<le> n"
  by (induction n) (auto simp: Let_def)

lemma round_sqrt_le: "round_sqrt n \<le> n"
  using sqrt_floor_bounds [of n] sqrt_floor_le [of n]
  by (cases "sqrt_floor n = 0") (auto simp: round_sqrt_def Let_def)

text \<open>On 64-bit values \<open>IsSquare\<close> holds of the perfect squares and of nothing else.\<close>

lemma IsSquare_iff:
  assumes "v < 2 ^ 64"
  shows "IsSquare v \<longleftrightarrow> (\<exists>r. r * r = v)"
proof
  assume "\<exists>r. r * r = v"
  then obtain r where r: "r * r = v" by blast
  then have "round_sqrt v = r" using round_sqrt_square [of r] by simp
  then show "IsSquare v" using r assms by (simp add: IsSquare_def wrap64_def)
next
  assume sq: "IsSquare v"
  let ?root = "round_sqrt v"
  have w: "(?root * ?root) mod 2 ^ 64 = v"
    using sq by (simp add: IsSquare_def wrap64_def Let_def)
  show "\<exists>r. r * r = v"
  proof (cases "?root * ?root < 2 ^ 64")
    case True
    with w show ?thesis by auto
  next
    case False
    have b: "sqrt_floor v * sqrt_floor v \<le> v" using sqrt_floor_bounds by blast
    have sf: "sqrt_floor v < 2 ^ 32"
    proof (rule ccontr)
      assume "\<not> sqrt_floor v < 2 ^ 32"
      then have h: "(2 :: nat) ^ 32 \<le> sqrt_floor v" by simp
      have "(2 :: nat) ^ 32 * 2 ^ 32 \<le> sqrt_floor v * sqrt_floor v"
        by (rule mult_le_mono [OF h h])
      with b assms show False by simp
    qed
    have "?root \<le> sqrt_floor v + 1" by (simp add: round_sqrt_def Let_def)
    with sf have h: "?root \<le> 2 ^ 32" by simp
    have "?root * ?root \<le> 2 ^ 32 * 2 ^ 32" by (rule mult_le_mono [OF h h])
    with False have "?root * ?root = 2 ^ 64" by simp
    with w have "v = 0" by simp
    then show ?thesis by simp
  qed
qed

text \<open>A positive value that shares no bit with its predecessor is a power of two.\<close>

lemma and_pred_zero_power2:
  fixes v :: nat
  shows "0 < v \<Longrightarrow> and v (v - 1) = 0 \<Longrightarrow> \<exists>j. v = 2 ^ j"
proof (induction v rule: less_induct)
  case (less v)
  have rec: "and v (v - 1)
             = of_bool (odd v \<and> odd (v - 1)) + 2 * (and (v div 2) ((v - 1) div 2))"
    by (rule and_nat_rec)
  show ?case
  proof (cases "even v")
    case True
    then obtain w where w: "v = 2 * w" by (elim evenE)
    with less.prems have w0: "0 < w" by simp
    have "(v - 1) div 2 = w - 1" using w w0 by (cases w) simp_all
    with rec less.prems(2) w have "and w (w - 1) = 0" by simp
    moreover have "w < v" using w w0 by simp
    ultimately obtain j where "w = 2 ^ j" using less.IH w0 by blast
    then have "v = 2 ^ Suc j" using w by simp
    then show ?thesis by blast
  next
    case False
    then obtain w where w: "v = 2 * w + 1" by (elim oddE)
    have "(v - 1) div 2 = w" "v div 2 = w" using w by simp_all
    with rec less.prems(2) have "w = 0" by simp
    then have "v = 2 ^ 0" using w by simp
    then show ?thesis by blast
  qed
qed

lemma IsPowerOfTwo_power2:
  assumes "0 < v" "v < 2 ^ 64" "IsPowerOfTwo v"
  shows "\<exists>j. v = 2 ^ j"
proof -
  have "wrap64 (v + 2 ^ 64 - 1) = v - 1"
  proof -
    have "v + 2 ^ 64 - 1 = (v - 1) + 1 * 2 ^ 64" using assms(1) by simp
    then have "wrap64 (v + 2 ^ 64 - 1) = (v - 1) mod 2 ^ 64"
      unfolding wrap64_def by (simp only: mod_mult_self1)
    then show ?thesis using assms(2) by simp
  qed
  with assms(3) have "and v (v - 1) = 0" by (simp add: IsPowerOfTwo_def)
  with assms(1) show ?thesis by (rule and_pred_zero_power2)
qed

lemma sqrt_floor_pos: "0 < v \<Longrightarrow> 0 < sqrt_floor v"
  using sqrt_floor_bounds [of v] by (cases "sqrt_floor v = 0") simp_all

lemma FindSquareMultipleOf_loop_square:
  "v < 2 ^ 31 \<Longrightarrow> 0 < v \<Longrightarrow> 0 < cur \<Longrightarrow>
   \<exists>r. FindSquareMultipleOf_loop v cur = r * r \<and> 0 < r \<and> v dvd r * r \<and> r * r \<le> v * v"
proof (induction v cur rule: FindSquareMultipleOf_loop.induct)
  case (1 v cur)
  show ?case
  proof (cases "cur < v")
    case False
    have h: "v \<le> 2 ^ 31" using "1.prems" by simp
    have "v * v \<le> 2 ^ 31 * 2 ^ 31" by (rule mult_le_mono [OF h h])
    then have "wrap64 (v * v) = v * v" by (simp add: wrap64_def)
    with False "1.prems"(2) show ?thesis
      by (subst FindSquareMultipleOf_loop.simps) (auto intro!: exI [of _ v])
  next
    case True
    then have h: "cur \<le> 2 ^ 31" using "1.prems" by simp
    have "cur * cur \<le> 2 ^ 31 * 2 ^ 31" by (rule mult_le_mono [OF h h])
    then have nowrap: "wrap64 (cur * cur) = cur * cur" by (simp add: wrap64_def)
    have le: "cur * cur \<le> v * v" using True by (intro mult_le_mono) simp_all
    show ?thesis
    proof (cases "(cur * cur) mod v = 0")
      case True
      with \<open>cur < v\<close> nowrap le "1.prems"(3) show ?thesis
        by (subst FindSquareMultipleOf_loop.simps) (auto simp: Let_def intro!: exI [of _ cur])
    next
      case False
      have "\<exists>r. FindSquareMultipleOf_loop v (cur + 1) = r * r \<and> 0 < r \<and> v dvd r * r
              \<and> r * r \<le> v * v"
        using \<open>cur < v\<close> nowrap False "1.prems" by (intro "1.IH" [OF _ refl]) simp_all
      with \<open>cur < v\<close> nowrap False show ?thesis
        by (subst FindSquareMultipleOf_loop.simps) (simp add: Let_def)
    qed
  qed
qed

lemma FindSquareMultipleOf_square:
  assumes "0 < v" "v < 2 ^ 31"
  shows "\<exists>r. FindSquareMultipleOf v = r * r \<and> 0 < r \<and> v dvd r * r \<and> r * r \<le> v * v"
proof -
  have v64: "v < 2 ^ 64" using assms(2) by simp
  consider (sq) "IsSquare v" | (p2) "\<not> IsSquare v" "IsPowerOfTwo v"
    | (loop) "\<not> IsSquare v" "\<not> IsPowerOfTwo v" by blast
  then show ?thesis
  proof cases
    case sq
    then obtain r where r: "r * r = v" using IsSquare_iff [OF v64] by blast
    then have "0 < r" using assms(1) by (cases r) simp_all
    moreover have "v \<le> v * v" using assms(1) by simp
    ultimately show ?thesis using sq r by (auto simp: FindSquareMultipleOf_def intro!: exI [of _ r])
  next
    case p2
    then obtain j where j: "v = 2 ^ j" using IsPowerOfTwo_power2 [OF assms(1) v64] by blast
    have "odd j"
    proof (rule ccontr)
      assume "\<not> odd j"
      then obtain i where "j = 2 * i" by (auto elim: evenE)
      then have "(2 ^ i) * (2 ^ i) = v" using j by (simp add: power_add [symmetric] mult_2)
      then show False using p2(1) IsSquare_iff [OF v64] by blast
    qed
    then obtain i where i: "j = 2 * i + 1" by (elim oddE)
    have "2 * v = 2 ^ ((i + 1) + (i + 1))" using j i by simp
    then have sq2: "2 * v = (2 ^ (i + 1)) * (2 ^ (i + 1))" by (simp only: power_add)
    have "(2 :: nat) ^ 1 \<le> 2 ^ j" using i by (intro power_increasing) simp_all
    then have "2 \<le> v" using j by simp
    then have le: "2 * v \<le> v * v" by simp
    have pos: "(0 :: nat) < 2 ^ (i + 1)" by simp
    have "wrap64 (2 * v) = 2 * v" using assms(2) by (simp add: wrap64_def)
    then have "FindSquareMultipleOf v = (2 ^ (i + 1)) * (2 ^ (i + 1))"
      using p2 sq2 by (simp add: FindSquareMultipleOf_def)
    moreover have "v dvd (2 ^ (i + 1)) * (2 ^ (i + 1))"
    proof -
      have "v dvd 2 * v" by simp
      then show ?thesis by (simp only: sq2)
    qed
    moreover have "(2 ^ (i + 1)) * (2 ^ (i + 1)) \<le> v * v"
      using le by (simp only: sq2)
    ultimately show ?thesis using pos by blast
  next
    case loop
    then show ?thesis
      using FindSquareMultipleOf_loop_square [OF assms(2) assms(1) sqrt_floor_pos [OF assms(1)]]
      by (simp add: FindSquareMultipleOf_def)
  qed
qed

lemma EnsureSquareChunkSize_nonzero:
  "cfg_k config \<noteq> 0 \<Longrightarrow>
   EnsureSquareChunkSize config sz =
     (if IsSquare (cfg_k config) then Inr config
      else Inl (ConfigurationError ''number of chunks must be square''))"
  by (simp add: EnsureSquareChunkSize_def)

text \<open>
  Claim C5.  For a nonzero chunk count \<open>k\<close>, \<open>EnsureSquareChunkSize\<close> accepts (returns with
  the configuration unchanged) exactly when \<open>round(sqrt(k))\<^sup>2 = k\<close> in 64-bit arithmetic, and
  throws the \<open>ConfigurationError\<close> "number of chunks must be square" otherwise; for
  \<open>k < 2 ^ 64\<close> the accepted counts are the perfect squares.  For \<open>k = 0\<close> and a process
  count \<open>0 < size < 2 ^ 31\<close> (a positive \<open>int\<close>) it throws nothing and sets \<open>k\<close> to the
  square of a positive number, a multiple of \<open>size\<close> that is at most \<open>size\<^sup>2\<close>.
\<close>

theorem EnsureSquareChunkSize_square:
  "(cfg_k config \<noteq> 0 \<longrightarrow>
      ((EnsureSquareChunkSize config sz = Inr config)
         = (wrap64 (round_sqrt (cfg_k config) * round_sqrt (cfg_k config)) = cfg_k config))
      \<and> (wrap64 (round_sqrt (cfg_k config) * round_sqrt (cfg_k config)) \<noteq> cfg_k config \<longrightarrow>
           EnsureSquareChunkSize config sz
             = Inl (ConfigurationError ''number of chunks must be square''))
      \<and> (cfg_k config < 2 ^ 64 \<longrightarrow>
           ((EnsureSquareChunkSize config sz = Inr config) = (\<exists>r. r * r = cfg_k config))))
   \<and> (cfg_k config = 0 \<and> 0 < sz \<and> sz < 2 ^ 31 \<longrightarrow>
        (\<exists>r. EnsureSquareChunkSize config sz = Inr (config\<lparr>cfg_k := r * r\<rparr>)
             \<and> 0 < r \<and> sz dvd r * r \<and> r * r \<le> sz * sz))"
proof (intro conjI impI)
  assume "cfg_k config \<noteq> 0"
  then show "(EnsureSquareChunkSize config sz = Inr config)
      = (wrap64 (round_sqrt (cfg_k config) * round_sqrt (cfg_k config)) = cfg_k config)"
    by (simp add: EnsureSquareChunkSize_nonzero IsSquare_def Let_def)
next
  assume "cfg_k config \<noteq> 0"
    and "wrap64 (round_sqrt (cfg_k config) * round_sqrt (cfg_k config)) \<noteq> cfg_k config"
  then show "EnsureSquareChunkSize config sz
      = Inl (ConfigurationError ''number of chunks must be square'')"
    by (simp add: EnsureSquareChunkSize_nonzero IsSquare_def Let_def)
next
  assume "cfg_k config \<noteq> 0" and "cfg_k config < 2 ^ 64"
  then show "(EnsureSquareChunkSize config sz = Inr config) = (\<exists>r. r * r = cfg_k config)"
    by (simp add: EnsureSquareChunkSize_nonzero IsSquare_iff)
next
  assume a: "cfg_k config = 0 \<and> 0 < sz \<and> sz < 2 ^ 31"
  then obtain r where "FindSquareMultipleOf sz = r * r" "0 < r" "sz dvd r * r"
      "r * r \<le> sz * sz"
    using FindSquareMultipleOf_square [of sz] by blast
  with a show "\<exists>r. EnsureSquareChunkSize config sz = Inr (config\<lparr>cfg_k := r * r\<rparr>)
      \<and> 0 < r \<and> sz dvd r * r \<and> r * r \<le> sz * sz"
    by (auto simp: EnsureSquareChunkSize_def)
qed

lemma sqrt_floor_examples: "sqrt_floor 3 = 1" "sqrt_floor 4 = 2" "sqrt_floor 6 = 2"
  by code_simp+

lemma FindSquareMultipleOf_example: "FindSquareMultipleOf 6 = 36"
proof -
  have "\<not> IsSquare 6"
    by (simp add: IsSquare_def round_sqrt_def sqrt_floor_examples wrap64_def)
  moreover have "\<not> IsPowerOfTwo 6" by (simp add: IsPowerOfTwo_def wrap64_def)
  moreover have "FindSquareMultipleOf_loop 6 2 = 36"
    by (simp add: wrap64_def)
  ultimately show ?thesis by (simp add: FindSquareMultipleOf_def sqrt_floor_examples)
qed

theorem EnsureSquareChunkSize_square_witness:
  "\<forall>c. EnsureSquareChunkSize (c\<lparr>cfg_k := 4\<rparr>) 4 = Inr (c\<lparr>cfg_k := 4\<rparr>)
     \<and> EnsureSquareChunkSize (c\<lparr>cfg_k := 3\<rparr>) 4
         = Inl (ConfigurationError ''number of chunks must be square'')
     \<and> (\<exists>r. EnsureSquareChunkSize (c\<lparr>cfg_k := 0\<rparr>) 6 = Inr (c\<lparr>cfg_k := r * r\<rparr>)
            \<and> 0 < r \<and> 6 dvd r * r \<and> r * r \<le> 6 * 6)
     \<and> EnsureSquareChunkSize (c\<lparr>cfg_k := 0\<rparr>) 6 = Inr (c\<lparr>cfg_k := 36\<rparr>)"
proof (intro allI conjI)
  fix c :: PGeneratorConfig
  show "EnsureSquareChunkSize (c\<lparr>cfg_k := 4\<rparr>) 4 = Inr (c\<lparr>cfg_k := 4\<rparr>)"
    using EnsureSquareChunkSize_square [of "c\<lparr>cfg_k := 4\<rparr>" 4]
    by (simp add: round_sqrt_def sqrt_floor_examples wrap64_def)
  show "EnsureSquareChunkSize (c\<lparr>cfg_k := 3\<rparr>) 4
          = Inl (ConfigurationError ''number of chunks must be square'')"
    using EnsureSquareChunkSize_square [of "c\<lparr>cfg_k := 3\<rparr>" 4]
    by (simp add: round_sqrt_def sqrt_floor_examples wrap64_def)
  show "\<exists>r. EnsureSquareChunkSize (c\<lparr>cfg_k := 0\<rparr>) 6 = Inr (c\<lparr>cfg_k := r * r\<rparr>)
            \<and> 0 < r \<and> 6 dvd r * r \<and> r * r \<le> 6 * 6"
    using EnsureSquareChunkSize_square [of "c\<lparr>cfg_k := 0\<rparr>" 6] by simp
  show "EnsureSquareChunkSize (c\<lparr>cfg_k := 0\<rparr>) 6 = Inr (c\<lparr>cfg_k := 36\<rparr>)"
    by (simp add: EnsureSquareChunkSize_def FindSquareMultipleOf_example)
qed


section \<open>The vertex ranges of \<open>ComputeRange\<close>\<close>

lemma range_start_le:
  fixes n :: nat
  assumes "r \<le> sz"
  shows "r * (n div sz) + min r (n mod sz) \<le> n"
proof -
  have "r * (n div sz) \<le> sz * (n div sz)" using assms by simp
  moreover have "min r (n mod sz) \<le> n mod sz" by simp
  moreover have "sz * (n div sz) + n mod sz = n" by simp
  ultimately show ?thesis by linarith
qed

text \<open>
  The largest intermediate value of \<open>ComputeRange\<close>, the argument of the final \<open>std::min\<close>,
  is at most \<open>n\<close>: no step of the computation leaves the range of \<open>SInt\<close>.
\<close>

lemma ComputeRange_no_overflow:
  fixes n :: nat
  assumes "rank < sz"
  shows "rank * (n div sz) + min rank (n mod sz)
           + (if rank < n mod sz then n div sz + 1 else n div sz) \<le> n"
proof -
  have "rank * (n div sz) + min rank (n mod sz)
          + (if rank < n mod sz then n div sz + 1 else n div sz)
        = (rank + 1) * (n div sz) + min (rank + 1) (n mod sz)"
    by (simp add: min_def)
  moreover have "(rank + 1) * (n div sz) + min (rank + 1) (n mod sz) \<le> n"
    using assms by (intro range_start_le) simp
  ultimately show ?thesis by simp
qed

lemma ComputeRange_eq:
  assumes "rank < sz"
  shows "ComputeRange n sz rank =
           (rank * (n div sz) + min rank (n mod sz),
            (rank + 1) * (n div sz) + min (rank + 1) (n mod sz))"
proof -
  have le: "(rank + 1) * (n div sz) + min (rank + 1) (n mod sz) \<le> n"
    using assms by (intro range_start_le) simp
  have "rank * (n div sz) + min rank (n mod sz)
          + (if rank < n mod sz then n div sz + 1 else n div sz)
        = (rank + 1) * (n div sz) + min (rank + 1) (n mod sz)"
    by (simp add: min_def)
  then show ?thesis using le by (simp add: ComputeRange_def Let_def min_def)
qed

lemma range_start_mono:
  "r1 \<le> r2 \<Longrightarrow> r1 * c + min r1 m \<le> r2 * c + min r2 (m :: nat)"
  by (intro add_mono mult_le_mono1) (simp_all add: min_le_iff_disj)

lemma range_union:
  "(\<Union>r < k. {r * c + min r m ..< (r + 1) * c + min (r + 1) (m :: nat)}) = {0 ..< k * c + min k m}"
proof (induction k)
  case 0
  then show ?case by simp
next
  case (Suc k)
  have "k * c + min k m \<le> Suc k * c + min (Suc k) m" by (rule range_start_mono) simp
  then have "{0 ..< k * c + min k m} \<union> {k * c + min k m ..< Suc k * c + min (Suc k) m}
        = {0 ..< Suc k * c + min (Suc k) m}"
    by (intro ivl_disj_un_two) simp_all
  then show ?case using Suc by (simp add: lessThan_Suc Un_commute)
qed

text \<open>
  Claim C9.  For a vertex count \<open>n\<close> and a process count \<open>size \<ge> 1\<close>, the ranges
  \<open>ComputeRange(n, size, rank)\<close> for \<open>rank = 0 .. size - 1\<close> partition \<open>[0, n)\<close>: each range is
  well formed and has \<open>n div size\<close> or \<open>n div size + 1\<close> vertices; the first starts at 0
  and the last ends at \<open>n\<close>; a range of a smaller rank ends at or before the start of a
  range of a larger rank, and the two are disjoint; the union of all ranges is \<open>[0, n)\<close>.
\<close>

theorem ComputeRange_partition:
  assumes "0 < sz"
  shows "(\<forall>rank < sz. fst (ComputeRange n sz rank) \<le> snd (ComputeRange n sz rank)
            \<and> (snd (ComputeRange n sz rank) - fst (ComputeRange n sz rank) = n div sz
               \<or> snd (ComputeRange n sz rank) - fst (ComputeRange n sz rank) = n div sz + 1))
       \<and> fst (ComputeRange n sz 0) = 0
       \<and> snd (ComputeRange n sz (sz - 1)) = n
       \<and> (\<forall>r1 r2. r1 < r2 \<and> r2 < sz \<longrightarrow>
             snd (ComputeRange n sz r1) \<le> fst (ComputeRange n sz r2)
             \<and> {fst (ComputeRange n sz r1) ..< snd (ComputeRange n sz r1)}
                 \<inter> {fst (ComputeRange n sz r2) ..< snd (ComputeRange n sz r2)} = {})
       \<and> (\<Union>rank < sz. {fst (ComputeRange n sz rank) ..< snd (ComputeRange n sz rank)}) = {0 ..< n}"
proof (intro conjI allI impI)
  fix rank assume r: "rank < sz"
  show "fst (ComputeRange n sz rank) \<le> snd (ComputeRange n sz rank)"
    using r by (simp add: ComputeRange_eq range_start_mono)
  show "snd (ComputeRange n sz rank) - fst (ComputeRange n sz rank) = n div sz
        \<or> snd (ComputeRange n sz rank) - fst (ComputeRange n sz rank) = n div sz + 1"
    using r by (auto simp: ComputeRange_eq min_def)
next
  show "fst (ComputeRange n sz 0) = 0" using assms by (simp add: ComputeRange_eq)
next
  have "sz - 1 < sz" using assms by simp
  moreover have "min sz (n mod sz) = n mod sz"
    using assms mod_less_divisor [of sz n] by simp
  then have "(sz - 1 + 1) * (n div sz) + min (sz - 1 + 1) (n mod sz) = n"
    using assms by simp
  ultimately show "snd (ComputeRange n sz (sz - 1)) = n"
    by (simp only: ComputeRange_eq snd_conv)
next
  fix r1 r2 assume a: "r1 < r2 \<and> r2 < sz"
  then have le: "snd (ComputeRange n sz r1) \<le> fst (ComputeRange n sz r2)"
    using range_start_mono [of "r1 + 1" r2 "n div sz" "n mod sz"] by (simp add: ComputeRange_eq)
  then show "snd (ComputeRange n sz r1) \<le> fst (ComputeRange n sz r2)" .
  from le show "{fst (ComputeRange n sz r1) ..< snd (ComputeRange n sz r1)}
                 \<inter> {fst (ComputeRange n sz r2) ..< snd (ComputeRange n sz r2)} = {}"
    by auto
next
  have "(\<Union>rank < sz. {fst (ComputeRange n sz rank) ..< snd (ComputeRange n sz rank)})
        = (\<Union>r < sz. {r * (n div sz) + min r (n mod sz)
                        ..< (r + 1) * (n div sz) + min (r + 1) (n mod sz)})"
    by (intro SUP_cong refl) (simp add: ComputeRange_eq)
  also have "\<dots> = {0 ..< sz * (n div sz) + min sz (n mod sz)}" by (rule range_union)
  also have "sz * (n div sz) + min sz (n mod sz) = n"
    using assms mod_less_divisor [of sz n] by simp
  finally show "(\<Union>rank < sz. {fst (ComputeRange n sz rank) ..< snd (ComputeRange n sz rank)})
                = {0 ..< n}" .
qed

theorem ComputeRange_partition_witness:
  "map (ComputeRange 10 3) [0, 1, 2] = [(0, 4), (4, 7), (7, 10)]
   \<and> (\<Union>rank < 3. {fst (ComputeRange 10 3 rank) ..< snd (ComputeRange 10 3 rank)}) = {0 ..< 10}
   \<and> fst (ComputeRange 10 3 0) = 0 \<and> snd (ComputeRange 10 3 (3 - 1)) = 10"
  using ComputeRange_partition [of 3 10] by (simp add: ComputeRange_def Let_def)


section \<open>Failures reported by the facade\<close>

text \<open>
  Claim C7.  When \<open>NormalizeParameters\<close> throws a \<open>ConfigurationError\<close> on a process, that
  process writes nothing but the header it may have printed before and, on the root only,
  the line "Error: " followed by the message to the error stream; it exits with code 1; no
  generator is constructed or run.  The rank is arbitrary, so this holds on every process
  on which the error is raised.
\<close>

theorem Generate_ConfigurationError:
  assumes "factory_NormalizeParameters w (cfg_generator config_template) config_template
             (comm_size w) (rank = ROOT w \<and> \<not> cfg_quiet config_template)
           = Inl (ConfigurationError what)"
  shows "snd (facade_Generate w config_template rank) = Exit 1
       \<and> fst (facade_Generate w config_template rank)
           = (if rank = ROOT w \<and> \<not> cfg_quiet config_template \<and> cfg_print_header config_template
              then [PrintHeader] else [])
             @ (if rank = ROOT w then [Cerr (''Error: '' @ what)] else [])
       \<and> Create \<notin> set (fst (facade_Generate w config_template rank))
       \<and> GeneratorGenerate \<notin> set (fst (facade_Generate w config_template rank))"
  using assms by (simp add: facade_Generate_def Let_def)

theorem Generate_ConfigurationError_witness:
  "\<forall>c G. facade_Generate
            \<lparr>comm_size = 4, ROOT = 0, BASIC = 1, ADVANCED = 2,
             factory_NormalizeParameters = (\<lambda>t config sz verbose. EnsureSquareChunkSize config sz),
             generator_TakeResult = (\<lambda>config rank. G),
             ValidateSimpleGraph = (\<lambda>rank. True)\<rparr>
            (c\<lparr>cfg_k := 3, cfg_quiet := True\<rparr>) 0
          = ([Cerr ''Error: number of chunks must be square''], Exit 1)
        \<and> facade_Generate
            \<lparr>comm_size = 4, ROOT = 0, BASIC = 1, ADVANCED = 2,
             factory_NormalizeParameters = (\<lambda>t config sz verbose. EnsureSquareChunkSize config sz),
             generator_TakeResult = (\<lambda>config rank. G),
             ValidateSimpleGraph = (\<lambda>rank. True)\<rparr>
            (c\<lparr>cfg_k := 3, cfg_quiet := True\<rparr>) 1
          = ([], Exit 1)"
proof (intro allI)
  fix c :: PGeneratorConfig and G :: Graph
  let ?w = "\<lparr>comm_size = 4, ROOT = 0, BASIC = 1, ADVANCED = 2,
             factory_NormalizeParameters = (\<lambda>t config sz verbose. EnsureSquareChunkSize config sz),
             generator_TakeResult = (\<lambda>config rank. G),
             ValidateSimpleGraph = (\<lambda>rank. True)\<rparr>"
  let ?c = "c\<lparr>cfg_k := 3, cfg_quiet := True\<rparr>"
  have e: "EnsureSquareChunkSize ?c 4 = Inl (ConfigurationError ''number of chunks must be square'')"
    by (simp add: EnsureSquareChunkSize_def IsSquare_def round_sqrt_def sqrt_floor_examples
        wrap64_def)
  have n: "factory_NormalizeParameters ?w (cfg_generator ?c) ?c (comm_size ?w)
             (rank = ROOT ?w \<and> \<not> cfg_quiet ?c)
           = Inl (ConfigurationError ''number of chunks must be square'')" for rank
    using e by simp
  show "facade_Generate ?w ?c 0 = ([Cerr ''Error: number of chunks must be square''], Exit 1)
        \<and> facade_Generate ?w ?c 1 = ([], Exit 1)"
    using Generate_ConfigurationError [OF n [of 0]] Generate_ConfigurationError [OF n [of 1]]
    by (simp add: prod_eq_iff)
qed

text \<open>
  Claim C1, at a run of two processes with validation switched on, in which
  \<open>ValidateSimpleGraph\<close> succeeds on rank 0 and fails on rank 1.  The reduction of line 170
  combines the \<open>success\<close> flags with logical or, so both processes see \<open>success = true\<close>:
  neither writes an error, neither exits, and both return their graph.
\<close>

theorem Generate_validation_failure_on_one_process_is_missed:
  "(let w = \<lparr>comm_size = 2, ROOT = 0, BASIC = 1, ADVANCED = 2,
              factory_NormalizeParameters = (\<lambda>t c sz verbose. Inr c),
              generator_TakeResult = (\<lambda>c rank.
                \<lparr>vertex_range = (rank, rank + 1), representation = EDGE_LIST,
                 edges = (if rank = 1 then [(1, 0)] else []), xadj = [], adjncy = [],
                 vertex_weights = [], edge_weights = [], coordinates = ([], [])\<rparr>),
              ValidateSimpleGraph = (\<lambda>rank. rank \<noteq> 1)\<rparr>;
        config = \<lparr>cfg_generator = GNM_UNDIRECTED, cfg_n = 2, cfg_m = 1, cfg_k = 2, cfg_p = 0,
                   cfg_r = 0, cfg_plexp = 0, cfg_periodic = False, cfg_avg_degree = 0,
                   cfg_min_degree = 0, cfg_grid_x = 0, cfg_grid_y = 0, cfg_grid_z = 0,
                   cfg_rmat_a = 0, cfg_rmat_b = 0, cfg_rmat_c = 0, cfg_coordinates = False,
                   cfg_quiet = True, cfg_print_header = False, cfg_skip_postprocessing = False,
                   cfg_validate_simple_graph = True, cfg_statistics_level = 0\<rparr>
    in \<not> ValidateSimpleGraph w 1
       \<and> facade_Generate w config 0
           = ([Create, GeneratorGenerate, GeneratorFinalize, TakeResult, Validate, Allreduce_LOR],
              Return (generator_TakeResult w config 0))
       \<and> facade_Generate w config 1
           = ([Create, GeneratorGenerate, GeneratorFinalize, TakeResult, Validate, Allreduce_LOR],
              Return (generator_TakeResult w config 1)))"
  by (simp add: Let_def facade_Generate_def MPI_Allreduce_LOR_def upt_conv_Cons)

section \<open>Flags and defaults of the option string\<close>

lemma ParseOption_foldl_other:
  assumes "\<forall>t \<in> set post. takeWhile (\<lambda>c. c \<noteq> CHR ''='') t \<noteq> key"
  shows "foldl (\<lambda>result pair.
              if CHR ''='' \<notin> set pair then result(pair \<mapsto> ''1'')
              else result(takeWhile (\<lambda>c. c \<noteq> CHR ''='') pair
                            \<mapsto> tl (dropWhile (\<lambda>c. c \<noteq> CHR ''='') pair))) m post key = m key"
  using assms
proof (induction post arbitrary: m)
  case Nil
  then show ?case by simp
next
  case (Cons t post)
  let ?step = "\<lambda>result pair.
              if CHR ''='' \<notin> set pair then result(pair \<mapsto> ''1'')
              else result(takeWhile (\<lambda>c. c \<noteq> CHR ''='') pair
                            \<mapsto> tl (dropWhile (\<lambda>c. c \<noteq> CHR ''='') pair))"
  have k: "takeWhile (\<lambda>c. c \<noteq> CHR ''='') t \<noteq> key" using Cons.prems by simp
  have rest: "\<forall>t \<in> set post. takeWhile (\<lambda>c. c \<noteq> CHR ''='') t \<noteq> key"
    using Cons.prems by simp
  have one: "?step m t key = m key"
  proof (cases "CHR ''='' \<in> set t")
    case True
    then show ?thesis using k by simp
  next
    case False
    then have "takeWhile (\<lambda>c. c \<noteq> CHR ''='') t = t"
      by (intro takeWhile_eq_all_conv [THEN iffD2]) blast
    with k have "t \<noteq> key" by simp
    with False show ?thesis by simp
  qed
  have "foldl ?step m (t # post) key = foldl ?step (?step m t) post key" by simp
  also have "\<dots> = ?step m t key" by (rule Cons.IH [OF rest])
  finally show ?case using one by simp
qed

lemma ParseOptionString_flag:
  assumes "getline_all [] options_str = pre @ [key] @ post"
      and "CHR ''='' \<notin> set key"
      and "\<forall>t \<in> set post. takeWhile (\<lambda>c. c \<noteq> CHR ''='') t \<noteq> key"
  shows "ParseOptionString options_str key = Some ''1''"
proof -
  let ?step = "\<lambda>result pair.
              if CHR ''='' \<notin> set pair then result(pair \<mapsto> ''1'')
              else result(takeWhile (\<lambda>c. c \<noteq> CHR ''='') pair
                            \<mapsto> tl (dropWhile (\<lambda>c. c \<noteq> CHR ''='') pair))"
  have "ParseOptionString options_str key
        = foldl ?step (?step (foldl ?step Map.empty pre) key) post key"
    unfolding ParseOptionString_def assms(1) by simp
  also have "\<dots> = ?step (foldl ?step Map.empty pre) key key"
    by (rule ParseOption_foldl_other [OF assms(3)])
  also have "\<dots> = Some ''1''" using assms(2) by simp
  finally show ?thesis .
qed

lemma and_then_InrE:
  assumes "and_then x f = Inr y"
  obtains v where "x = Inr v" "f v = Inr y"
  using assms by (cases x) (simp_all add: and_then_def)

lemma get_sint_or_default_upd:
  "key \<noteq> k \<Longrightarrow> get_sint_or_default (m(k \<mapsto> x)) key d = get_sint_or_default m key d"
  by (simp add: get_sint_or_default_def)

lemma get_bool_or_default_upd:
  "key \<noteq> k \<Longrightarrow> get_bool_or_default (m(k \<mapsto> x)) key d = get_bool_or_default m key d"
  by (simp add: get_bool_or_default_def)

lemma GenericGenerate_fields:
  assumes "GenericGenerateFromOptionString type_map stod options_str config = Inr config'"
  shows "and_then (get_sint_or_default (ParseOptionString options_str) ''N'' 0) (\<lambda>N_value.
           and_then (shift_left_1ull N_value) (\<lambda>n_default.
             get_sint_or_default (ParseOptionString options_str) ''n'' n_default))
         = Inr (cfg_n config')
       \<and> cfg_periodic config'
           = get_bool_or_default (ParseOptionString options_str) ''periodic'' False
       \<and> cfg_coordinates config'
           = get_bool_or_default (ParseOptionString options_str) ''coordinates'' False"
proof -
  let ?parsed = "ParseOptionString options_str"
  let ?type_str = "case ?parsed ''type'' of None \<Rightarrow> [] | Some s \<Rightarrow> s"
  let ?options = "?parsed(''type'' \<mapsto> ?type_str)"
  obtain t where t: "type_map ?type_str = Some t"
    using assms by (cases "type_map ?type_str") (simp_all add: GenericGenerateFromOptionString_def Let_def)
  have n1: "get_sint_or_default ?options ''N'' 0 = get_sint_or_default ?parsed ''N'' 0"
    by (rule get_sint_or_default_upd) simp
  have n2: "get_sint_or_default ?options ''n'' d = get_sint_or_default ?parsed ''n'' d" for d
    by (rule get_sint_or_default_upd) simp
  have b1: "get_bool_or_default ?options ''periodic'' False = get_bool_or_default ?parsed ''periodic'' False"
    by (rule get_bool_or_default_upd) simp
  have b2: "get_bool_or_default ?options ''coordinates'' False = get_bool_or_default ?parsed ''coordinates'' False"
    by (rule get_bool_or_default_upd) simp
  from assms
  have "and_then (get_sint_or_default ?parsed ''N'' 0) (\<lambda>N_value.
          and_then (shift_left_1ull N_value) (\<lambda>n_default.
            and_then (get_sint_or_default ?parsed ''n'' n_default) (\<lambda>n. Inr n)))
        = Inr (cfg_n config')
      \<and> cfg_periodic config' = get_bool_or_default ?parsed ''periodic'' False
      \<and> cfg_coordinates config' = get_bool_or_default ?parsed ''coordinates'' False"
    unfolding GenericGenerateFromOptionString_def Let_def t option.case n1 n2 b1 b2
    apply (elim and_then_InrE)
    apply (auto simp: and_then_def)
    done
  moreover have "and_then x (\<lambda>n. Inr n) = x" for x :: "Exception + SInt"
    by (cases x) (simp_all add: and_then_def)
  ultimately show ?thesis by simp
qed

text \<open>
  Claim C8.  Let \<open>key\<close> be one of the strings between the semicolons of the option string,
  without \<open>=\<close>, and let no later string assign to the same key.  Then the parsed options
  map \<open>key\<close> to "1", \<open>get_bool_or_default\<close> reads it as true whatever the default, and a
  configuration built by \<open>GenericGenerateFromOptionString\<close> has \<open>periodic\<close> (or
  \<open>coordinates\<close>) set when \<open>key\<close> is that flag.  Let the options have no key \<open>n\<close> and a key
  \<open>N\<close> whose value \<open>std::stoll\<close> reads as a number from 0 to 63.  Then the value computed
  for \<open>n\<close> is \<open>1\<close> shifted left by that number, and it is the \<open>n\<close> of every configuration
  built from the string.
\<close>

theorem option_string_flag_and_default_n:
  "(getline_all [] options_str = pre @ [key] @ post \<and> CHR ''='' \<notin> set key
      \<and> (\<forall>t \<in> set post. takeWhile (\<lambda>c. c \<noteq> CHR ''='') t \<noteq> key)
     \<longrightarrow> ParseOptionString options_str key = Some ''1''
       \<and> get_bool_or_default (ParseOptionString options_str) key default_value
       \<and> (GenericGenerateFromOptionString type_map stod options_str config = Inr config' \<longrightarrow>
            (key = ''periodic'' \<longrightarrow> cfg_periodic config')
            \<and> (key = ''coordinates'' \<longrightarrow> cfg_coordinates config')))
   \<and> (ParseOptionString options_str ''n'' = None
      \<and> ParseOptionString options_str ''N'' = Some N_str
      \<and> stoll N_str = Inr N_value \<and> 0 \<le> N_value \<and> N_value < 64
     \<longrightarrow> and_then (get_sint_or_default (ParseOptionString options_str) ''N'' 0) (\<lambda>N.
           and_then (shift_left_1ull N) (\<lambda>n_default.
             get_sint_or_default (ParseOptionString options_str) ''n'' n_default))
         = Inr (2 ^ nat N_value)
       \<and> (GenericGenerateFromOptionString type_map stod options_str config = Inr config' \<longrightarrow>
            cfg_n config' = 2 ^ nat N_value))"
proof (intro conjI impI)
  assume a: "getline_all [] options_str = pre @ [key] @ post \<and> CHR ''='' \<notin> set key
      \<and> (\<forall>t \<in> set post. takeWhile (\<lambda>c. c \<noteq> CHR ''='') t \<noteq> key)"
  then show flag: "ParseOptionString options_str key = Some ''1''"
    by (intro ParseOptionString_flag [of options_str pre key post]) simp_all
  then show b: "get_bool_or_default (ParseOptionString options_str) key default_value"
    by (simp add: get_bool_or_default_def)
  assume g: "GenericGenerateFromOptionString type_map stod options_str config = Inr config'"
  show "cfg_periodic config'" if "key = ''periodic''"
    using GenericGenerate_fields [OF g] flag that by (simp add: get_bool_or_default_def)
  show "cfg_coordinates config'" if "key = ''coordinates''"
    using GenericGenerate_fields [OF g] flag that by (simp add: get_bool_or_default_def)
next
  assume a: "ParseOptionString options_str ''n'' = None
      \<and> ParseOptionString options_str ''N'' = Some N_str
      \<and> stoll N_str = Inr N_value \<and> 0 \<le> N_value \<and> N_value < 64"
  then have "N_value mod 2 ^ 64 = N_value" and "nat N_value < 64" by auto
  with a show n: "and_then (get_sint_or_default (ParseOptionString options_str) ''N'' 0) (\<lambda>N.
           and_then (shift_left_1ull N) (\<lambda>n_default.
             get_sint_or_default (ParseOptionString options_str) ''n'' n_default))
         = Inr (2 ^ nat N_value)"
    by (simp add: and_then_def get_sint_or_default_def shift_left_1ull_def push_bit_eq_mult)
  assume g: "GenericGenerateFromOptionString type_map stod options_str config = Inr config'"
  show "cfg_n config' = 2 ^ nat N_value"
    using GenericGenerate_fields [OF g] n by simp
qed

lemma tokens_example:
  "getline_all [] ''type=rgg2d;N=4;periodic'' = [''type=rgg2d'', ''N=4'', ''periodic'']"
  by simp

lemma parsed_example:
  "ParseOptionString ''type=rgg2d;N=4;periodic''
   = [''type'' \<mapsto> ''rgg2d'', ''N'' \<mapsto> ''4'', ''periodic'' \<mapsto> ''1'']"
  by (simp add: ParseOptionString_def)

lemma stoll_example: "stoll ''4'' = Inr 4"
  by (simp add: stoll_def isspace_def isdigit_def decimal_def)

theorem option_string_flag_and_default_n_witness:
  "\<forall>c. ParseOptionString ''type=rgg2d;N=4;periodic'' ''periodic'' = Some ''1''
      \<and> (\<exists>c'. GenericGenerateFromOptionString [''rgg2d'' \<mapsto> RGG_2D] (\<lambda>s. Inr 0)
                 ''type=rgg2d;N=4;periodic'' c = Inr c'
               \<and> cfg_n c' = 16 \<and> cfg_periodic c')"
proof (intro allI)
  fix c :: PGeneratorConfig
  have "\<exists>c'. GenericGenerateFromOptionString [''rgg2d'' \<mapsto> RGG_2D] (\<lambda>s. Inr 0)
               ''type=rgg2d;N=4;periodic'' c = Inr c'"
    by (simp add: GenericGenerateFromOptionString_def Let_def parsed_example and_then_def
        get_sint_or_default_def get_hpfloat_or_default_def stoll_example shift_left_1ull_def)
  then obtain c' where g: "GenericGenerateFromOptionString [''rgg2d'' \<mapsto> RGG_2D] (\<lambda>s. Inr 0)
               ''type=rgg2d;N=4;periodic'' c = Inr c'"
    by blast
  have t: "getline_all [] ''type=rgg2d;N=4;periodic'' = [''type=rgg2d'', ''N=4''] @ [''periodic''] @ []"
    by (simp add: tokens_example)
  have p: "ParseOptionString ''type=rgg2d;N=4;periodic'' ''n'' = None"
          "ParseOptionString ''type=rgg2d;N=4;periodic'' ''N'' = Some ''4''"
    by (simp_all add: parsed_example)
  show "ParseOptionString ''type=rgg2d;N=4;periodic'' ''periodic'' = Some ''1''
      \<and> (\<exists>c'. GenericGenerateFromOptionString [''rgg2d'' \<mapsto> RGG_2D] (\<lambda>s. Inr 0)
                 ''type=rgg2d;N=4;periodic'' c = Inr c'
               \<and> cfg_n c' = 16 \<and> cfg_periodic c')"
    using option_string_flag_and_default_n
            [where options_str = "''type=rgg2d;N=4;periodic''"
               and pre = "[''type=rgg2d'', ''N=4'']" and key = "''periodic''" and post = "[]"
               and N_str = "''4''" and N_value = 4
               and type_map = "[''rgg2d'' \<mapsto> RGG_2D]" and stod = "\<lambda>s. Inr 0"
               and config = c and config' = c']
          t p g stoll_example
    by auto
qed


end
